theory Spec2Isabelle
  imports Main "HOL-Library.Multiset_Order"
begin

unbundle bit_operations_syntax

section \<open>Data model\<close>

text \<open>
  The embedding covers \<^verbatim>\<open>src/vgen/rtler_vbase.py\<close> (value nodes, ports, slices, connect,
  elaborate) and \<^verbatim>\<open>src/pymtl/simulate.py\<close> (the event queue and the cycle algorithm).
  Python objects are mutable and shared, so value nodes and ports live in a store and are
  named by their addresses; every operation takes the state and returns the new one.
  Python integers are unbounded: \<open>int\<close>.
\<close>

datatype error = AssertionError | AttributeError | TypeError | ValueError | RuntimeError

text \<open>What a \<^verbatim>\<open>value\<close> property returns: an integer, or \<^verbatim>\<open>None\<close>.\<close>

datatype pyval = PyNone | PyInt int

text \<open>
  \<^verbatim>\<open>class ValueNode\<close>: \<^verbatim>\<open>sim\<close> (here only whether a simulator is attached; there is one
  simulator), \<^verbatim>\<open>width\<close>, \<^verbatim>\<open>_value\<close>.
\<close>

record value_node =
  vn_sim :: bool
  vn_width :: int
  vn_value :: int

text \<open>
  \<^verbatim>\<open>class VerilogSlice\<close>: \<^verbatim>\<open>parent_ptr\<close> (the address of the sliced port), \<^verbatim>\<open>width\<close>,
  \<^verbatim>\<open>addr\<close>.
\<close>

record verilog_slice =
  parent_ptr :: nat
  sl_width :: int
  addr :: int

text \<open>
  The attribute \<^verbatim>\<open>_value\<close> of a port holds \<^verbatim>\<open>None\<close>, a ValueNode, or (after
  \<^verbatim>\<open>connect\<close> with a slice) the VerilogSlice itself.
\<close>

datatype vref = NodeRef nat | SliceRef verilog_slice

text \<open>The entries of a port's \<^verbatim>\<open>connections\<close> list; a VerilogConstant has a value and a width.\<close>

datatype endpoint = PortEnd nat | SliceEnd verilog_slice | ConstantEnd int int

text \<open>
  \<^verbatim>\<open>class VerilogPort\<close>. The width is taken as an integer (the string widths of the
  \<^verbatim>\<open>str=\<close> constructor path are not modelled); \<^verbatim>\<open>parent\<close> is the name of the module
  that elaboration assigned the port to.
\<close>

record verilog_port =
  ptype :: "string option"
  pwidth :: int
  pname :: string
  pparent :: "string option"
  connections :: "endpoint list"
  pvalue :: "vref option"

text \<open>The two lines the source prints.\<close>

datatype warning = NoSimulatorPointer | UnconnectedNode nat

text \<open>
  A call made by the simulator: a combinational function taken from the event queue, an
  edge-triggered function, or the commit of a staged register (net and staged value).
\<close>

datatype call = Comb nat | Edge nat | Commit nat int

text \<open>
  The state: the store of value nodes (\<open>next_free\<close> is the next unused address), the
  store of ports, what was printed, and the fields of \<^verbatim>\<open>SimulationTool\<close>:
  \<^verbatim>\<open>num_cycles\<close>, \<^verbatim>\<open>vnode_callbacks\<close> (a \<^verbatim>\<open>defaultdict(list)\<close> keyed by node),
  \<^verbatim>\<open>rnode_callbacks\<close>, \<^verbatim>\<open>event_queue\<close> (a deque, leftmost element first),
  \<^verbatim>\<open>posedge_clk_fns\<close>, \<^verbatim>\<open>vcd\<close> and the time stamps written to \<^verbatim>\<open>o\<close>. Functions are
  named by numbers, and a register by its output net.

  Modelled from the spec: \<open>staged\<close> is the value staged for each register. Registers
  are in the missing \<^verbatim>\<open>model.py\<close>.

  \<open>calls\<close> is a history variable and not a field of the source: every call the
  simulator makes is appended to it together with the node store at that moment. No
  operation reads it.
\<close>

record state =
  nodes :: "nat \<Rightarrow> value_node"
  next_free :: nat
  ports :: "nat \<Rightarrow> verilog_port"
  stdout :: "warning list"
  num_cycles :: int
  vnode_callbacks :: "nat \<rightharpoonup> nat list"
  rnode_callbacks :: "nat list"
  staged :: "nat \<Rightarrow> int"
  event_queue :: "nat list"
  posedge_clk_fns :: "nat list"
  vcd :: bool
  vcd_out :: "int list"
  calls :: "(call \<times> (nat \<Rightarrow> value_node)) list"

section \<open>Value nodes and the event queue\<close>

text \<open>
  \<^verbatim>\<open>SimulationTool.add_event\<close>, the inner loop: each function that is not in the queue is
  put at its left end (\<^verbatim>\<open>appendleft\<close>).
\<close>

fun add_funcs :: "nat list \<Rightarrow> nat list \<Rightarrow> nat list" where
  "add_funcs [] q = q"
| "add_funcs (func # funcs) q = add_funcs funcs (if func \<notin> set q then func # q else q)"

definition add_event :: "nat \<Rightarrow> state \<Rightarrow> state" where
  "add_event value_node s =
     (case vnode_callbacks s value_node of
        None \<Rightarrow> s
      | Some funcs \<Rightarrow> s\<lparr>event_queue := add_funcs funcs (event_queue s)\<rparr>)"

text \<open>\<^verbatim>\<open>ValueNode(width, value)\<close>: a new node at the next unused address, with no simulator.\<close>

definition ValueNode :: "int \<Rightarrow> int \<Rightarrow> state \<Rightarrow> nat \<times> state" where
  "ValueNode width v s =
     (next_free s,
      s\<lparr>nodes := (nodes s)(next_free s := \<lparr>vn_sim = False, vn_width = width, vn_value = v\<rparr>),
        next_free := Suc (next_free s)\<rparr>)"

text \<open>
  The setter of \<^verbatim>\<open>ValueNode.value\<close>: tell the simulator if there is one, else print the
  warning; then store.
\<close>

definition ValueNode_set :: "nat \<Rightarrow> int \<Rightarrow> state \<Rightarrow> state" where
  "ValueNode_set a v s =
     (let s1 = (if vn_sim (nodes s a) then add_event a s
                else s\<lparr>stdout := stdout s @ [NoSimulatorPointer]\<rparr>)
      in s1\<lparr>nodes := (nodes s1)(a := (nodes s1 a)\<lparr>vn_value := v\<rparr>)\<rparr>)"

section \<open>Ports and slices\<close>

text \<open>\<^verbatim>\<open>VerilogPort.__init__\<close> with \<^verbatim>\<open>str=None\<close>, and \<^verbatim>\<open>InPort\<close>, \<^verbatim>\<open>OutPort\<close>.\<close>

definition VerilogPort :: "string option \<Rightarrow> int \<Rightarrow> verilog_port" where
  "VerilogPort t width =
     \<lparr>ptype = t, pwidth = width, pname = ''???'', pparent = None, connections = [],
      pvalue = None\<rparr>"

definition InPort :: "int \<Rightarrow> verilog_port" where
  "InPort width = VerilogPort (Some ''input'') width"


text \<open>\<^verbatim>\<open>VerilogPort.__getitem__\<close>: a slice of width 1.\<close>

definition getitem :: "nat \<Rightarrow> int \<Rightarrow> verilog_slice" where
  "getitem p i = \<lparr>parent_ptr = p, sl_width = 1, addr = i\<rparr>"

definition set_pvalue :: "nat \<Rightarrow> vref option \<Rightarrow> state \<Rightarrow> state" where
  "set_pvalue p r s = s\<lparr>ports := (ports s)(p := (ports s p)\<lparr>pvalue := r\<rparr>)\<rparr>"

definition append_connection :: "nat \<Rightarrow> endpoint \<Rightarrow> state \<Rightarrow> state" where
  "append_connection p e s =
     s\<lparr>ports := (ports s)(p := (ports s p)\<lparr>connections := connections (ports s p) @ [e]\<rparr>)\<rparr>"

text \<open>
  The getters of \<^verbatim>\<open>VerilogPort.value\<close> and \<^verbatim>\<open>VerilogSlice.value\<close>. A port whose
  \<^verbatim>\<open>_value\<close> is a slice reads through the slice, which reads its parent port, and so
  on; ports that point at each other's slices recurse until Python's recursion limit
  raises RuntimeError. The first argument is that budget of nested calls.

  In \<^verbatim>\<open>((parent.value) & (1 << addr)) >> addr\<close> the parent is read first, then
  \<^verbatim>\<open>1 << addr\<close> raises ValueError on a negative count, then \<^verbatim>\<open>&\<close> raises TypeError on
  \<^verbatim>\<open>None\<close>.
\<close>

fun VerilogPort_value :: "nat \<Rightarrow> state \<Rightarrow> nat \<Rightarrow> error + pyval"
  and VerilogSlice_value :: "nat \<Rightarrow> state \<Rightarrow> verilog_slice \<Rightarrow> error + pyval" where
  "VerilogPort_value 0 s p = Inl RuntimeError"
| "VerilogPort_value (Suc d) s p =
     (case pvalue (ports s p) of
        None \<Rightarrow> Inr PyNone
      | Some (NodeRef a) \<Rightarrow> Inr (PyInt (vn_value (nodes s a)))
      | Some (SliceRef sl) \<Rightarrow> VerilogSlice_value d s sl)"
| "VerilogSlice_value d s sl =
     (case VerilogPort_value d s (parent_ptr sl) of
        Inl e \<Rightarrow> Inl e
      | Inr pv \<Rightarrow>
          if addr sl < 0 then Inl ValueError
          else (case pv of
                  PyNone \<Rightarrow> Inl TypeError
                | PyInt x \<Rightarrow>
                    Inr (PyInt (drop_bit (nat (addr sl)) (x AND push_bit (nat (addr sl)) 1)))))"

text \<open>
  The setters. A port without a node prints the warning and makes a node of its own that
  holds the written value. A slice does
  \<^verbatim>\<open>self.parent_ptr.value |= (value << self.addr)\<close>.
\<close>

fun VerilogPort_set :: "nat \<Rightarrow> nat \<Rightarrow> int \<Rightarrow> state \<Rightarrow> error + state"
  and VerilogSlice_set :: "nat \<Rightarrow> verilog_slice \<Rightarrow> int \<Rightarrow> state \<Rightarrow> error + state" where
  "VerilogPort_set 0 p v s = Inl RuntimeError"
| "VerilogPort_set (Suc d) p v s =
     (case pvalue (ports s p) of
        None \<Rightarrow>
          (case ValueNode (pwidth (ports s p)) v (s\<lparr>stdout := stdout s @ [UnconnectedNode p]\<rparr>) of
             (a, s1) \<Rightarrow> Inr (set_pvalue p (Some (NodeRef a)) s1))
      | Some (NodeRef a) \<Rightarrow> Inr (ValueNode_set a v s)
      | Some (SliceRef sl) \<Rightarrow> VerilogSlice_set d sl v s)"
| "VerilogSlice_set d sl v s =
     (case VerilogPort_value d s (parent_ptr sl) of
        Inl e \<Rightarrow> Inl e
      | Inr pv \<Rightarrow>
          if addr sl < 0 then Inl ValueError
          else (case pv of
                  PyNone \<Rightarrow> Inl TypeError
                | PyInt x \<Rightarrow>
                    VerilogPort_set d (parent_ptr sl) (x OR push_bit (nat (addr sl)) v) s))"

text \<open>
  The targets of \<^verbatim>\<open>connect\<close>. The source is Python 2, which has two integer types: a
  value of type \<^verbatim>\<open>int\<close> lies between \<^verbatim>\<open>-sys.maxint - 1\<close> and \<^verbatim>\<open>sys.maxint\<close>, and every
  other integer is a \<^verbatim>\<open>long\<close>, which \<^verbatim>\<open>isinstance(target, int)\<close> does not accept.
\<close>

datatype target = IntTarget int | LongTarget int | SliceTarget verilog_slice | PortTarget nat

text \<open>
  The value of an integer constant written in the program: an \<^verbatim>\<open>int\<close> when it fits, a
  \<^verbatim>\<open>long\<close> when it does not. \<^verbatim>\<open>sys.maxint\<close> is the platform's (\<open>2 ^ 31 - 1\<close> or
  \<open>2 ^ 63 - 1\<close>) and is a parameter.
\<close>

definition int_constant :: "int \<Rightarrow> int \<Rightarrow> target" where
  "int_constant maxint v =
     (if - maxint - 1 \<le> v \<and> v \<le> maxint then IntTarget v else LongTarget v)"

text \<open>
  \<^verbatim>\<open>VerilogPort.connect\<close>. A target that is neither an \<^verbatim>\<open>int\<close> nor a VerilogSlice takes
  the last branch, which treats it as a port: for a \<^verbatim>\<open>long\<close> the assertion's
  \<^verbatim>\<open>target.width\<close> raises AttributeError.
\<close>

definition connect :: "nat \<Rightarrow> target \<Rightarrow> state \<Rightarrow> error + state" where
  "connect self tgt s =
     (case tgt of
        IntTarget v \<Rightarrow>
          (let s1 = append_connection self (ConstantEnd v (pwidth (ports s self))) s
           in case ValueNode (pwidth (ports s1 self)) v s1 of
                (a, s2) \<Rightarrow> Inr (set_pvalue self (Some (NodeRef a)) s2))
      | LongTarget v \<Rightarrow> Inl AttributeError
      | SliceTarget sl \<Rightarrow>
          if pwidth (ports s self) \<noteq> sl_width sl then Inl AssertionError
          else
            (let s1 = append_connection self (SliceEnd sl) s;
                 s2 = append_connection (parent_ptr sl) (PortEnd self) s1
             in if pvalue (ports s2 (parent_ptr sl)) \<noteq> None
                then Inr (set_pvalue self (Some (SliceRef sl)) s2)
                else
                  (let s3 = set_pvalue self (Some (SliceRef sl)) s2
                   in case ValueNode (pwidth (ports s3 (parent_ptr sl))) 0 s3 of
                        (a, s4) \<Rightarrow> Inr (set_pvalue (parent_ptr sl) (Some (NodeRef a)) s4)))
      | PortTarget t \<Rightarrow>
          if pwidth (ports s self) \<noteq> pwidth (ports s t) then Inl AssertionError
          else
            (let s1 = append_connection self (PortEnd t) s;
                 s2 = append_connection t (PortEnd self) s1
             in if pvalue (ports s2 t) \<noteq> None
                then Inr (set_pvalue self (pvalue (ports s2 t)) s2)
                else
                  (case ValueNode (pwidth (ports s2 self)) 0 s2 of
                     (a, s3) \<Rightarrow>
                       (let s4 = set_pvalue self (Some (NodeRef a)) s3
                        in Inr (set_pvalue t (pvalue (ports s4 self)) s4)))))"

text \<open>Running one operation after another; an error ends the run, as an exception does.\<close>

definition and_then :: "error + 'a \<Rightarrow> ('a \<Rightarrow> error + 'b) \<Rightarrow> error + 'b" where
  "and_then r f = (case r of Inl e \<Rightarrow> Inl e | Inr x \<Rightarrow> f x)"

text \<open>A state with no value node, in which every port is as its constructor leaves it.\<close>

definition fresh :: "int \<Rightarrow> state" where
  "fresh width =
     \<lparr>nodes = (\<lambda>_. \<lparr>vn_sim = False, vn_width = 0, vn_value = 0\<rparr>), next_free = 0,
      ports = (\<lambda>_. InPort width), stdout = [], num_cycles = 0,
      vnode_callbacks = Map.empty, rnode_callbacks = [], staged = (\<lambda>_. 0),
      event_queue = [],
      posedge_clk_fns = [], vcd = False, vcd_out = [], calls = []\<rparr>"

section \<open>The simulator\<close>

text \<open>
  \<^verbatim>\<open>simulate.py\<close> is written against \<^verbatim>\<open>model.py\<close>, which is not among the sources. What
  it needs of the model is taken as a parameter: the body of each function, and the nodes
  of the ports \<^verbatim>\<open>model.clk\<close> and \<^verbatim>\<open>model.reset\<close>. A write goes through the setter of
  \<^verbatim>\<open>ValueNode.value\<close> above.

  A function body reads nodes, writes nodes and stages register values; what it does
  next may depend on what it read.
\<close>

datatype func_body =
    Return
  | Read nat "int \<Rightarrow> func_body"
  | Write nat int func_body
  | Next nat int func_body

record model =
  model_func :: "nat \<Rightarrow> func_body"
  model_clk :: nat
  model_reset :: nat

text \<open>
  Modelled from the spec: staging a register (the assignment to \<^verbatim>\<open>next\<close>) is in the missing
  \<^verbatim>\<open>model.py\<close>. It records the register's next value and appends the register to
  \<^verbatim>\<open>rnode_callbacks\<close>, so the list is in staging order.
\<close>

definition stage :: "nat \<Rightarrow> int \<Rightarrow> state \<Rightarrow> state" where
  "stage a v s =
     s\<lparr>rnode_callbacks := rnode_callbacks s @ [a], staged := (staged s)(a := v)\<rparr>"

text \<open>
  Modelled from the spec: the commit \<^verbatim>\<open>reg.clock()\<close> is in the missing \<^verbatim>\<open>model.py\<close>. It
  applies the register's staged value to its output net, through the setter.
\<close>

definition clock :: "nat \<Rightarrow> state \<Rightarrow> state" where
  "clock reg s = ValueNode_set reg (staged s reg) s"

primrec run :: "func_body \<Rightarrow> state \<Rightarrow> state" where
  "run Return s = s"
| "run (Read a k) s = run (k (vn_value (nodes s a))) s"
| "run (Write a v c) s = run c (ValueNode_set a v s)"
| "run (Next a v c) s = run c (stage a v s)"

definition record_call :: "call \<Rightarrow> state \<Rightarrow> state" where
  "record_call c s = s\<lparr>calls := calls s @ [(c, nodes s)]\<rparr>"

text \<open>
  \<^verbatim>\<open>SimulationTool.eval_combinational\<close>: \<^verbatim>\<open>pop()\<close> takes the rightmost element of the
  deque. The loop need not end, so the result is an option.
\<close>

partial_function (option) eval_combinational :: "model \<Rightarrow> state \<Rightarrow> state option" where
  "eval_combinational M s =
     (if event_queue s = [] then Some s
      else eval_combinational M
             (run (model_func M (last (event_queue s)))
                (record_call (Comb (last (event_queue s)))
                   (s\<lparr>event_queue := butlast (event_queue s)\<rparr>))))"

text \<open>\<^verbatim>\<open>for func in self.posedge_clk_fns: func()\<close>\<close>

fun call_posedge :: "model \<Rightarrow> nat list \<Rightarrow> state \<Rightarrow> state" where
  "call_posedge M [] s = s"
| "call_posedge M (func # funcs) s =
     call_posedge M funcs (run (model_func M func) (record_call (Edge func) s))"

text \<open>\<^verbatim>\<open>while self.rnode_callbacks: reg = self.rnode_callbacks.pop(); reg.clock()\<close>\<close>

function clock_all :: "state \<Rightarrow> state" where
  "clock_all s =
     (if rnode_callbacks s = [] then s
      else clock_all
             (clock (last (rnode_callbacks s))
                (record_call (Commit (last (rnode_callbacks s)) (staged s (last (rnode_callbacks s))))
                   (s\<lparr>rnode_callbacks := butlast (rnode_callbacks s)\<rparr>))))"
  by pat_completeness auto
termination
  by (relation "measure (\<lambda>s. length (rnode_callbacks s))")
     (auto simp: clock_def record_call_def ValueNode_set_def add_event_def Let_def
           split: option.splits)

text \<open>
  \<^verbatim>\<open>SimulationTool.cycle\<close>. With \<^verbatim>\<open>vcd\<close> set, the two time stamps are written before the
  clock is driven low and high.
\<close>

definition vcd_stamp :: "int \<Rightarrow> state \<Rightarrow> state" where
  "vcd_stamp t s = (if vcd s then s\<lparr>vcd_out := vcd_out s @ [t]\<rparr> else s)"

declare eval_combinational.simps [code]
declare clock_all.simps [simp del]

definition cycle :: "model \<Rightarrow> state \<Rightarrow> state option" where
  "cycle M s =
     (case eval_combinational M s of
        None \<Rightarrow> None
      | Some s1 \<Rightarrow>
          (let s2 = ValueNode_set (model_clk M) 0 (vcd_stamp (10 * num_cycles s1) s1);
               s3 = ValueNode_set (model_clk M) 1 (vcd_stamp (10 * num_cycles s2 + 5) s2);
               s4 = call_posedge M (posedge_clk_fns s3) s3;
               s5 = clock_all s4
           in case eval_combinational M s5 of
                None \<Rightarrow> None
              | Some s6 \<Rightarrow> Some (s6\<lparr>num_cycles := num_cycles s6 + 1\<rparr>)))"

text \<open>\<^verbatim>\<open>SimulationTool.reset\<close>\<close>

definition reset :: "model \<Rightarrow> state \<Rightarrow> state option" where
  "reset M s =
     (case cycle M (ValueNode_set (model_reset M) 1 s) of
        None \<Rightarrow> None
      | Some s1 \<Rightarrow>
          (case cycle M s1 of
             None \<Rightarrow> None
           | Some s2 \<Rightarrow> Some (ValueNode_set (model_reset M) 0 s2)))"

text \<open>
  \<^verbatim>\<open>register_decorated_functions\<close>, the loop over one function's sensitivity list: the
  function is added to the callbacks of each node and, unless it is already there, to the
  left end of the event queue.
\<close>

fun register_function :: "nat \<Rightarrow> nat list \<Rightarrow> state \<Rightarrow> state" where
  "register_function func_ptr [] s = s"
| "register_function func_ptr (value_ptr # sensitivity_list) s =
     register_function func_ptr sensitivity_list
       (s\<lparr>vnode_callbacks :=
            (vnode_callbacks s)(value_ptr \<mapsto>
               (case vnode_callbacks s value_ptr of None \<Rightarrow> [] | Some fs \<Rightarrow> fs) @ [func_ptr]),
          event_queue :=
            (if func_ptr \<notin> set (event_queue s) then func_ptr # event_queue s
             else event_queue s)\<rparr>)"

subsection \<open>The phases of a cycle, as the specification words them\<close>

text \<open>
  The clock is driven low and then high; the edge-triggered functions are invoked in
  registration order; the staged registers are committed in reverse of staging order.
\<close>

definition clock_phase :: "model \<Rightarrow> state \<Rightarrow> state" where
  "clock_phase M s =
     (let s2 = ValueNode_set (model_clk M) 0 (vcd_stamp (10 * num_cycles s) s)
      in ValueNode_set (model_clk M) 1 (vcd_stamp (10 * num_cycles s2 + 5) s2))"

definition edge_phase :: "model \<Rightarrow> state \<Rightarrow> state" where
  "edge_phase M s =
     foldl (\<lambda>st f. run (model_func M f) (record_call (Edge f) st)) s (posedge_clk_fns s)"

definition commit_phase :: "state \<Rightarrow> state" where
  "commit_phase s =
     foldl (\<lambda>st reg. clock reg (record_call (Commit reg (staged st reg)) st))
       (s\<lparr>rnode_callbacks := []\<rparr>) (rev (rnode_callbacks s))"

text \<open>The nets a function body may write, and the nets it may write or stage.\<close>

primrec writes :: "func_body \<Rightarrow> nat set" where
  "writes Return = {}"
| "writes (Read a k) = (\<Union>v. writes (k v))"
| "writes (Write a v c) = insert a (writes c)"
| "writes (Next a v c) = writes c"

primrec drives :: "func_body \<Rightarrow> nat set" where
  "drives Return = {}"
| "drives (Read a k) = (\<Union>v. drives (k v))"
| "drives (Write a v c) = insert a (drives c)"
| "drives (Next a v c) = insert a (drives c)"

text \<open>The functions registered against a node (\<^verbatim>\<open>vnode_callbacks\<close> is a defaultdict).\<close>

definition callbacks_of :: "state \<Rightarrow> nat \<Rightarrow> nat list" where
  "callbacks_of s a = (case vnode_callbacks s a of None \<Rightarrow> [] | Some fs \<Rightarrow> fs)"

text \<open>The calls of a history, without the stores.\<close>

definition called :: "state \<Rightarrow> call list" where
  "called s = map fst (calls s)"

text \<open>
  The sensitivity graph is acyclic: \<open>rank\<close> falls along every edge from a function to
  a function registered against a net that the first may write.
\<close>

definition ranked :: "(nat \<Rightarrow> nat) \<Rightarrow> model \<Rightarrow> state \<Rightarrow> bool" where
  "ranked rank M s \<longleftrightarrow>
     (\<forall>g. \<forall>a\<in>writes (model_func M g). \<forall>h\<in>set (callbacks_of s a). rank h < rank g)"

section \<open>Elaboration\<close>

text \<open>
  \<^verbatim>\<open>class VerilogWire\<close>, and a module with what its \<^verbatim>\<open>__dict__\<close> holds: the members its
  constructor declared, in the order \<^verbatim>\<open>items()\<close> yields them, and the attributes that
  \<^verbatim>\<open>elaborate\<close> and \<^verbatim>\<open>check_type\<close> assign (\<^verbatim>\<open>class_name\<close>, \<^verbatim>\<open>parent\<close>, \<^verbatim>\<open>name\<close>,
  \<^verbatim>\<open>type\<close>, \<^verbatim>\<open>wires\<close>, \<^verbatim>\<open>ports\<close>, \<^verbatim>\<open>submodules\<close>; absent ones read as \<open>None\<close> or
  \<open>[]\<close>). A member is a port, a module, a list, or something else. The loop of
  \<^verbatim>\<open>elaborate\<close> also meets the assigned attributes: strings, \<^verbatim>\<open>None\<close> and the empty list
  \<^verbatim>\<open>wires\<close>, on which \<^verbatim>\<open>check_type\<close> does nothing. The hierarchy is a tree of values;
  \<^verbatim>\<open>parent\<close> is kept as the name of the parent.
\<close>

record verilog_wire =
  wname :: string
  wwidth :: int





section \<open>Example models\<close>

text \<open>
  A simulator state as \<^verbatim>\<open>find_node_groupings\<close> and \<^verbatim>\<open>register_decorated_functions\<close>
  leave it: every node has the simulator attached; the callbacks, the event queue and the
  edge-triggered functions are given. Net 0 is the clock and net 1 the reset.
\<close>

definition sim_state :: "(nat \<rightharpoonup> nat list) \<Rightarrow> nat list \<Rightarrow> nat list \<Rightarrow> state" where
  "sim_state cbs q pfs =
     \<lparr>nodes = (\<lambda>_. \<lparr>vn_sim = True, vn_width = 1, vn_value = 0\<rparr>), next_free = 8,
      ports = (\<lambda>_. InPort 1), stdout = [], num_cycles = 0,
      vnode_callbacks = cbs, rnode_callbacks = [], staged = (\<lambda>_. 0), event_queue = q,
      posedge_clk_fns = pfs, vcd = False, vcd_out = [], calls = []\<rparr>"

definition sim_model :: "(nat \<Rightarrow> func_body) \<Rightarrow> model" where
  "sim_model fs = \<lparr>model_func = fs, model_clk = 0, model_reset = 1\<rparr>"

text \<open>Function 0 copies the clock (net 0) to net 3; it is sensitive to net 2.\<close>

definition clock_probe :: model where
  "clock_probe = sim_model ((\<lambda>_. Return)(0 := Read 0 (\<lambda>v. Write 3 v Return)))"

text \<open>Functions 0 and 1 write 10 and 20 to net 5, which nothing is sensitive to.\<close>

definition two_writers :: model where
  "two_writers = sim_model ((\<lambda>_. Return)(0 := Write 5 10 Return, 1 := Write 5 20 Return))"

text \<open>
  Function 0 is combinational and drives the reset net low; function 1 is edge-triggered
  and stages 7 on net 3.
\<close>

definition reset_driver :: model where
  "reset_driver = sim_model ((\<lambda>_. Return)(0 := Write 1 0 Return, 1 := Next 3 7 Return))"

text \<open>
  Function 2 is edge-triggered and stages the value of the reset net on net 3; function 3
  is sensitive to net 3 and copies it to net 4; function 4 is sensitive to net 4 and
  copies it to net 5.
\<close>

definition reset_pipeline :: model where
  "reset_pipeline =
     sim_model ((\<lambda>_. Return)(2 := Read 1 (\<lambda>v. Next 3 v Return),
                            3 := Read 3 (\<lambda>v. Write 4 v Return),
                            4 := Read 4 (\<lambda>v. Write 5 v Return)))"



text \<open>What each recorded call saw on a net.\<close>

definition seen :: "nat \<Rightarrow> state \<Rightarrow> (call \<times> int) list" where
  "seen a s = map (\<lambda>e. (fst e, vn_value (snd e a))) (calls s)"

text \<open>
  The reset net \<open>r\<close> reads 1, no staged register would overwrite it, and every call
  recorded after the first \<open>n\<close> saw it at 1.
\<close>

definition reset_held :: "nat \<Rightarrow> nat \<Rightarrow> state \<Rightarrow> bool" where
  "reset_held r n s \<longleftrightarrow>
     vn_value (nodes s r) = 1 \<and> r \<notin> set (rnode_callbacks s) \<and>
     n \<le> length (calls s) \<and> (\<forall>e\<in>set (drop n (calls s)). vn_value (snd e r) = 1)"


section \<open>Ports: constants, dangling writes, unconnected reads\<close>

text \<open>
  Nothing alters an entry of a \<^verbatim>\<open>connections\<close> list: the setters leave the lists as they
  are, and \<^verbatim>\<open>connect\<close> only appends.
\<close>

lemma set_keeps_connections:
  "VerilogPort_set d q u s = Inr s' \<Longrightarrow> connections (ports s' p) = connections (ports s p)"
  "VerilogSlice_set d sl u s = Inr s' \<Longrightarrow> connections (ports s' p) = connections (ports s p)"
proof (induction d q u s and d sl u s arbitrary: s' and s'
       rule: VerilogPort_set_VerilogSlice_set.induct)
  case (1 p v s)
  then show ?case by simp
next
  case (2 d q v s)
  then show ?case
    by (auto simp: ValueNode_def set_pvalue_def ValueNode_set_def add_event_def Let_def
             split: option.splits vref.splits)
next
  case (3 d sl v s)
  then show ?case
    by (auto split: sum.splits if_splits pyval.splits)
qed

lemma connections_set_pvalue:
  "connections (ports (set_pvalue q r s) p) = connections (ports s p)"
  by (simp add: set_pvalue_def)

lemma connections_append_connection:
  "connections (ports (append_connection q e s) p) =
     connections (ports s p) @ (if p = q then [e] else [])"
  by (simp add: append_connection_def)

lemma connections_ValueNode:
  "ValueNode w v s = (a, s1) \<Longrightarrow> connections (ports s1 p) = connections (ports s p)"
  by (auto simp: ValueNode_def)

lemma connect_extends_connections:
  assumes "connect q tgt s = Inr s'"
  shows "\<exists>ext. connections (ports s' p) = connections (ports s p) @ ext"
proof (cases tgt)
  case (IntTarget v)
  let ?s1 = "append_connection q (ConstantEnd v (pwidth (ports s q))) s"
  obtain a s2 where v: "ValueNode (pwidth (ports ?s1 q)) v ?s1 = (a, s2)"
    by (cases "ValueNode (pwidth (ports ?s1 q)) v ?s1")
  with assms IntTarget have "s' = set_pvalue q (Some (NodeRef a)) s2"
    by (simp add: connect_def Let_def)
  then show ?thesis
    by (simp add: connections_set_pvalue connections_ValueNode [OF v]
          connections_append_connection)
next
  case (LongTarget v)
  with assms show ?thesis by (simp add: connect_def)
next
  case (SliceTarget sl)
  let ?s2 = "append_connection (parent_ptr sl) (PortEnd q) (append_connection q (SliceEnd sl) s)"
  let ?s3 = "set_pvalue q (Some (SliceRef sl)) ?s2"
  obtain a s4 where v: "ValueNode (pwidth (ports ?s3 (parent_ptr sl))) 0 ?s3 = (a, s4)"
    by (cases "ValueNode (pwidth (ports ?s3 (parent_ptr sl))) 0 ?s3")
  from assms SliceTarget v have
    "s' = ?s3 \<or> s' = set_pvalue (parent_ptr sl) (Some (NodeRef a)) s4"
    by (simp add: connect_def Let_def split: if_splits)
  then show ?thesis
    by (auto simp: connections_set_pvalue connections_ValueNode [OF v]
          connections_append_connection)
next
  case (PortTarget t)
  let ?s2 = "append_connection t (PortEnd q) (append_connection q (PortEnd t) s)"
  obtain a s3 where v: "ValueNode (pwidth (ports ?s2 q)) 0 ?s2 = (a, s3)"
    by (cases "ValueNode (pwidth (ports ?s2 q)) 0 ?s2")
  from assms PortTarget v have
    "s' = set_pvalue q (pvalue (ports ?s2 t)) ?s2 \<or>
     (\<exists>r. s' = set_pvalue t r (set_pvalue q (Some (NodeRef a)) s3))"
    by (simp add: connect_def Let_def split: if_splits) blast
  then show ?thesis
    by (auto simp: connections_set_pvalue connections_ValueNode [OF v]
          connections_append_connection)
qed

text \<open>
  C7, as stated, fails for a constant that is not an \<^verbatim>\<open>int\<close>: on a port of width 70 the
  constant \<open>2 ^ 64\<close>, a \<^verbatim>\<open>long\<close> on either platform, is within \<open>[0, 2 ^ 70)\<close>, and
  \<^verbatim>\<open>connect\<close> raises AttributeError.
\<close>

theorem connect_long_constant:
  "(0::int) < 70 \<and> (0::int) \<le> 2 ^ 64 \<and> (2::int) ^ 64 < 2 ^ nat 70 \<and>
   pwidth (ports (fresh 70) 0) = 70 \<and>
   connect 0 (int_constant (2 ^ 63 - 1) (2 ^ 64)) (fresh 70) = Inl AttributeError \<and>
   connect 0 (int_constant (2 ^ 31 - 1) (2 ^ 64)) (fresh 70) = Inl AttributeError"
  by (simp add: connect_def int_constant_def fresh_def InPort_def VerilogPort_def)

text \<open>
  C7, amended. For every width \<open>w > 0\<close> and every value \<open>0 \<le> v < 2 ^ w\<close> that is a Python
  \<^verbatim>\<open>int\<close> (\<open>v \<le> sys.maxint\<close>), connecting a port of width \<open>w\<close> to the constant \<open>v\<close>
  raises nothing (no width is compared on this branch), appends a constant of value
  \<open>v\<close> and width \<open>w\<close> to the port's connections, gives the port a new node of width
  \<open>w\<close> that holds \<open>v\<close>, leaves every other node as it was, and the port then reads
  \<open>v\<close>. The constant is immutable: whatever is written to any port or slice, and
  whatever is connected afterwards, it stays in the port's connections as it is.
\<close>

theorem connect_constant:
  assumes "0 < w" and "0 \<le> v" and "v < 2 ^ nat w" and "v \<le> maxint"
    and "pwidth (ports s p) = w"
  shows "\<exists>s'. connect p (int_constant maxint v) s = Inr s' \<and>
           connections (ports s' p) = connections (ports s p) @ [ConstantEnd v w] \<and>
           pvalue (ports s' p) = Some (NodeRef (next_free s)) \<and>
           next_free s' = Suc (next_free s) \<and>
           nodes s' (next_free s) = \<lparr>vn_sim = False, vn_width = w, vn_value = v\<rparr> \<and>
           (\<forall>a. a \<noteq> next_free s \<longrightarrow> nodes s' a = nodes s a) \<and>
           (\<forall>d. VerilogPort_value (Suc d) s' p = Inr (PyInt v)) \<and>
           (\<forall>d q u s''. VerilogPort_set d q u s' = Inr s'' \<longrightarrow>
              ConstantEnd v w \<in> set (connections (ports s'' p))) \<and>
           (\<forall>d sl u s''. VerilogSlice_set d sl u s' = Inr s'' \<longrightarrow>
              ConstantEnd v w \<in> set (connections (ports s'' p))) \<and>
           (\<forall>q tgt s''. connect q tgt s' = Inr s'' \<longrightarrow>
              ConstantEnd v w \<in> set (connections (ports s'' p)))"
proof -
  from assms have t: "int_constant maxint v = IntTarget v"
    by (simp add: int_constant_def)
  obtain s' where c: "connect p (IntTarget v) s = Inr s'"
    by (simp add: connect_def ValueNode_def Let_def)
  have base: "connections (ports s' p) = connections (ports s p) @ [ConstantEnd v w] \<and>
           pvalue (ports s' p) = Some (NodeRef (next_free s)) \<and>
           next_free s' = Suc (next_free s) \<and>
           nodes s' (next_free s) = \<lparr>vn_sim = False, vn_width = w, vn_value = v\<rparr> \<and>
           (\<forall>a. a \<noteq> next_free s \<longrightarrow> nodes s' a = nodes s a) \<and>
           (\<forall>d. VerilogPort_value (Suc d) s' p = Inr (PyInt v))"
    using c assms(5)
    by (auto simp: connect_def ValueNode_def set_pvalue_def append_connection_def Let_def)
  then have m: "ConstantEnd v w \<in> set (connections (ports s' p))"
    by simp
  have w1: "ConstantEnd v w \<in> set (connections (ports s'' p))"
    if "VerilogPort_set d q u s' = Inr s''" for d q u s''
    using set_keeps_connections(1) [OF that, of p] m by simp
  have w2: "ConstantEnd v w \<in> set (connections (ports s'' p))"
    if "VerilogSlice_set d sl u s' = Inr s''" for d sl u s''
    using set_keeps_connections(2) [OF that, of p] m by simp
  have w3: "ConstantEnd v w \<in> set (connections (ports s'' p))"
    if "connect q tgt s' = Inr s''" for q tgt s''
    using connect_extends_connections [OF that, of p] m by auto
  from t c base w1 w2 w3 show ?thesis by auto
qed

text \<open>
  C7, amended, at a port of width 8 and the constant 200 on a platform whose
  \<^verbatim>\<open>sys.maxint\<close> is \<open>2 ^ 31 - 1\<close>.
\<close>

theorem connect_constant_witness:
  "(0::int) < 8 \<and> (0::int) \<le> 200 \<and> (200::int) < 2 ^ nat 8 \<and> (200::int) \<le> 2 ^ 31 - 1 \<and>
   pwidth (ports (fresh 8) 0) = 8 \<and>
   (\<exists>s'. connect 0 (int_constant (2 ^ 31 - 1) 200) (fresh 8) = Inr s' \<and>
           connections (ports s' 0) = [ConstantEnd 200 8] \<and>
           pvalue (ports s' 0) = Some (NodeRef 0) \<and>
           nodes s' 0 = \<lparr>vn_sim = False, vn_width = 8, vn_value = 200\<rparr> \<and>
           VerilogPort_value (Suc 0) s' 0 = Inr (PyInt 200))"
proof -
  have w: "pwidth (ports (fresh 8) 0) = 8"
    by (simp add: fresh_def InPort_def VerilogPort_def)
  have f: "connections (ports (fresh 8) 0) = []" "next_free (fresh 8) = 0"
    by (simp_all add: fresh_def InPort_def VerilogPort_def)
  from connect_constant [of 8 200 "2 ^ 31 - 1" "fresh 8" 0] w
  obtain s' where "connect 0 (int_constant (2 ^ 31 - 1) 200) (fresh 8) = Inr s'"
    and "connections (ports s' 0) = connections (ports (fresh 8) 0) @ [ConstantEnd 200 8]"
    and "pvalue (ports s' 0) = Some (NodeRef (next_free (fresh 8)))"
    and "nodes s' (next_free (fresh 8)) = \<lparr>vn_sim = False, vn_width = 8, vn_value = 200\<rparr>"
    and "\<forall>d. VerilogPort_value (Suc d) s' 0 = Inr (PyInt 200)"
    by auto
  with w f show ?thesis by auto
qed

text \<open>
  C8. Writing \<open>v\<close> to a port that has no node returns normally: it prints the warning,
  allocates a new node of the port's width that holds \<open>v\<close>, for that port alone (no other
  port and no existing node changes), schedules nothing, and the port then reads \<open>v\<close>.
\<close>

theorem write_unconnected:
  assumes "pvalue (ports s p) = None"
  shows "\<exists>s'. VerilogPort_set (Suc d) p v s = Inr s' \<and>
           stdout s' = stdout s @ [UnconnectedNode p] \<and>
           pvalue (ports s' p) = Some (NodeRef (next_free s)) \<and>
           next_free s' = Suc (next_free s) \<and>
           nodes s' (next_free s) =
             \<lparr>vn_sim = False, vn_width = pwidth (ports s p), vn_value = v\<rparr> \<and>
           (\<forall>a. a \<noteq> next_free s \<longrightarrow> nodes s' a = nodes s a) \<and>
           (\<forall>q. q \<noteq> p \<longrightarrow> ports s' q = ports s q) \<and>
           event_queue s' = event_queue s \<and>
           (\<forall>d'. VerilogPort_value (Suc d') s' p = Inr (PyInt v))"
  using assms by (simp add: ValueNode_def set_pvalue_def)

text \<open>
  C8 at port 3 of a state without nodes, writing 9.
\<close>

theorem write_unconnected_witness:
  "pvalue (ports (fresh 4) 3) = None \<and>
   (\<exists>s'. VerilogPort_set (Suc 0) 3 9 (fresh 4) = Inr s' \<and>
           stdout s' = stdout (fresh 4) @ [UnconnectedNode 3] \<and>
           pvalue (ports s' 3) = Some (NodeRef (next_free (fresh 4))) \<and>
           next_free s' = Suc (next_free (fresh 4)) \<and>
           nodes s' (next_free (fresh 4)) =
             \<lparr>vn_sim = False, vn_width = pwidth (ports (fresh 4) 3), vn_value = 9\<rparr> \<and>
           (\<forall>a. a \<noteq> next_free (fresh 4) \<longrightarrow> nodes s' a = nodes (fresh 4) a) \<and>
           (\<forall>q. q \<noteq> 3 \<longrightarrow> ports s' q = ports (fresh 4) q) \<and>
           event_queue s' = event_queue (fresh 4) \<and>
           (\<forall>d'. VerilogPort_value (Suc d') s' 3 = Inr (PyInt 9)))"
proof -
  have h: "pvalue (ports (fresh 4) 3) = None"
    by (simp add: fresh_def InPort_def VerilogPort_def)
  show ?thesis
    using write_unconnected [OF h, of 0 9] h by simp
qed

text \<open>
  C10. A port as its constructor leaves it has no node; reading a port that has no node
  returns \<^verbatim>\<open>None\<close>, neither an error nor a number; and a read that returns an integer
  implies that the port has been given a node, which only \<^verbatim>\<open>connect\<close> and the setter do.
\<close>

theorem read_unconnected:
  "pvalue (VerilogPort t w) = None \<and>
   (pvalue (ports s p) = None \<longrightarrow> VerilogPort_value (Suc d) s p = Inr PyNone) \<and>
   (VerilogPort_value d' s p = Inr (PyInt v) \<longrightarrow> pvalue (ports s p) \<noteq> None)"
  by (cases d') (auto simp: VerilogPort_def split: option.splits)

text \<open>
  C10 at port 3: unconnected it reads \<^verbatim>\<open>None\<close>, and once it has node 0 it reads that
  node's value.
\<close>

theorem read_unconnected_witness:
  "pvalue (ports (fresh 4) 3) = None \<and> VerilogPort_value (Suc 0) (fresh 4) 3 = Inr PyNone \<and>
   VerilogPort_value (Suc 0) (set_pvalue 3 (Some (NodeRef 0)) (fresh 4)) 3 = Inr (PyInt 0) \<and>
   pvalue (ports (set_pvalue 3 (Some (NodeRef 0)) (fresh 4)) 3) \<noteq> None"
proof -
  have 1: "pvalue (ports (fresh 4) 3) = None"
    by (simp add: fresh_def InPort_def VerilogPort_def)
  have 2: "VerilogPort_value (Suc 0) (set_pvalue 3 (Some (NodeRef 0)) (fresh 4)) 3 = Inr (PyInt 0)"
    by (simp add: fresh_def set_pvalue_def)
  from read_unconnected [of "Some ''input''" 4 "fresh 4" 3 0 0 0] 1
  have 3: "VerilogPort_value (Suc 0) (fresh 4) 3 = Inr PyNone"
    by blast
  from read_unconnected [of "Some ''input''" 4 "set_pvalue 3 (Some (NodeRef 0)) (fresh 4)" 3 0 "Suc 0" 0] 2
  have 4: "pvalue (ports (set_pvalue 3 (Some (NodeRef 0)) (fresh 4)) 3) \<noteq> None"
    by blast
  from 1 2 3 4 show ?thesis by blast
qed

section \<open>Connecting ports\<close>

text \<open>
  What \<^verbatim>\<open>connect\<close> does with two ports: unequal widths fail the assertion; otherwise the
  node of the target decides. When the target has a node, \<open>self\<close> takes it; when it has
  none, both get a new node, whatever \<open>self\<close> had before. Two ports that hold the same
  node read what is written through either.
\<close>

lemma connect_width_mismatch:
  "pwidth (ports s self) \<noteq> pwidth (ports s t) \<Longrightarrow>
   connect self (PortTarget t) s = Inl AssertionError"
  by (simp add: connect_def)

lemma connect_ports:
  assumes "pwidth (ports s self) = pwidth (ports s t)"
  shows "\<exists>s'. connect self (PortTarget t) s = Inr s' \<and>
           (if pvalue (ports s t) \<noteq> None
            then pvalue (ports s' self) = pvalue (ports s t) \<and>
                 pvalue (ports s' t) = pvalue (ports s t) \<and> next_free s' = next_free s
            else pvalue (ports s' self) = Some (NodeRef (next_free s)) \<and>
                 pvalue (ports s' t) = Some (NodeRef (next_free s)) \<and>
                 next_free s' = Suc (next_free s) \<and>
                 vn_value (nodes s' (next_free s)) = 0)"
proof (cases "pvalue (ports s t) = None")
  case True
  with assms show ?thesis
    by (cases "self = t")
       (simp_all add: connect_def set_pvalue_def append_connection_def ValueNode_def Let_def)
next
  case False
  with assms show ?thesis
    by (cases "self = t")
       (simp_all add: connect_def set_pvalue_def append_connection_def Let_def)
qed

lemma shared_node_write_read:
  assumes "pvalue (ports s p) = Some (NodeRef a)" and "pvalue (ports s q) = Some (NodeRef a)"
  shows "\<exists>s'. VerilogPort_set (Suc d) p v s = Inr s' \<and>
           VerilogPort_value (Suc d') s' q = Inr (PyInt v)"
  using assms by (simp add: ValueNode_set_def Let_def add_event_def split: option.splits)

text \<open>
  C1. The claim is that \<^verbatim>\<open>connect\<close> leaves one net per connected component, so that a
  value written through one endpoint is read through every other; the docstring of
  \<^verbatim>\<open>ValueNode\<close> says the same. The code adopts the target's node when the target has one,
  and otherwise gives \<open>self\<close> a new node even when \<open>self\<close> already has one. Three ports of
  width 8: after \<^verbatim>\<open>connect\<close> of port 0 with port 1 and then of port 0 with port 2, ports 0
  and 2 share node 1 and port 1 is left behind on node 0; 5 written to port 0 is read as 0
  from port 1.
\<close>

theorem connect_orphans_peer:
  "and_then (connect 0 (PortTarget 1) (fresh 8)) (\<lambda>s1.
     and_then (connect 0 (PortTarget 2) s1) (\<lambda>s2.
       and_then (VerilogPort_set 1 0 5 s2) (\<lambda>s3.
         and_then (VerilogPort_value 1 s3 1) (\<lambda>r.
           Inr (pvalue (ports s3 0), pvalue (ports s3 1), pvalue (ports s3 2), r)))))
   = Inr (Some (NodeRef 1), Some (NodeRef 0), Some (NodeRef 1), PyInt 0)"
  by (simp add: and_then_def connect_def fresh_def ValueNode_def set_pvalue_def
        append_connection_def Let_def InPort_def VerilogPort_def ValueNode_set_def)

section \<open>Slices\<close>

text \<open>
  The slice setter on a port that has a node stores the old value OR-ed with the shifted
  new bits.
\<close>

lemma slice_set_or:
  "pvalue (ports s (parent_ptr sl)) = Some (NodeRef a) \<Longrightarrow> 0 \<le> addr sl \<Longrightarrow>
   VerilogSlice_set (Suc d) sl v s =
     Inr (ValueNode_set a (vn_value (nodes s a) OR push_bit (nat (addr sl)) v) s)"
  by simp

text \<open>
  C4. The claim is that writing a bit through a slice replaces that bit, so that writing 0
  clears a bit that was set. A port of width 2 whose node holds 1: after 0 is written to
  the slice \<open>[0]\<close>, the slice still reads 1 and the port still reads 1.
\<close>

theorem slice_write_keeps_set_bit:
  "and_then (connect 0 (IntTarget 1) (fresh 2)) (\<lambda>s1.
     and_then (VerilogSlice_set 1 (getitem 0 0) 0 s1) (\<lambda>s2.
       and_then (VerilogSlice_value 1 s2 (getitem 0 0)) (\<lambda>b.
         and_then (VerilogPort_value 1 s2 0) (\<lambda>x. Inr (b, x)))))
   = Inr (PyInt 1, PyInt 1)"
  by (simp add: and_then_def connect_def fresh_def ValueNode_def set_pvalue_def
        append_connection_def Let_def InPort_def VerilogPort_def ValueNode_set_def getitem_def)

section \<open>What each operation leaves alone\<close>

lemma add_event_eq:
  "add_event a s = s\<lparr>event_queue := add_funcs (callbacks_of s a) (event_queue s)\<rparr>"
  by (simp add: add_event_def callbacks_of_def split: option.splits)

lemma add_event_fields [simp]:
  "nodes (add_event a s) = nodes s"
  "next_free (add_event a s) = next_free s"
  "ports (add_event a s) = ports s"
  "stdout (add_event a s) = stdout s"
  "num_cycles (add_event a s) = num_cycles s"
  "vnode_callbacks (add_event a s) = vnode_callbacks s"
  "rnode_callbacks (add_event a s) = rnode_callbacks s"
  "staged (add_event a s) = staged s"
  "posedge_clk_fns (add_event a s) = posedge_clk_fns s"
  "vcd (add_event a s) = vcd s"
  "vcd_out (add_event a s) = vcd_out s"
  "calls (add_event a s) = calls s"
  by (simp_all add: add_event_eq)

lemma ValueNode_set_fields [simp]:
  "next_free (ValueNode_set a v s) = next_free s"
  "ports (ValueNode_set a v s) = ports s"
  "num_cycles (ValueNode_set a v s) = num_cycles s"
  "vnode_callbacks (ValueNode_set a v s) = vnode_callbacks s"
  "rnode_callbacks (ValueNode_set a v s) = rnode_callbacks s"
  "staged (ValueNode_set a v s) = staged s"
  "posedge_clk_fns (ValueNode_set a v s) = posedge_clk_fns s"
  "vcd (ValueNode_set a v s) = vcd s"
  "vcd_out (ValueNode_set a v s) = vcd_out s"
  "calls (ValueNode_set a v s) = calls s"
  by (simp_all add: ValueNode_set_def Let_def)

lemma ValueNode_set_value [simp]:
  "vn_value (nodes (ValueNode_set a v s) b) = (if b = a then v else vn_value (nodes s b))"
  by (simp add: ValueNode_set_def Let_def)

lemma ValueNode_set_sim [simp]:
  "vn_sim (nodes (ValueNode_set a v s) b) = vn_sim (nodes s b)"
  by (simp add: ValueNode_set_def Let_def)

lemma ValueNode_set_queue:
  "event_queue (ValueNode_set a v s) =
     (if vn_sim (nodes s a) then add_funcs (callbacks_of s a) (event_queue s) else event_queue s)"
  by (simp add: ValueNode_set_def Let_def add_event_eq)

lemma callbacks_of_cong: "vnode_callbacks s' = vnode_callbacks s \<Longrightarrow> callbacks_of s' = callbacks_of s"
  by (rule ext) (simp add: callbacks_of_def)

lemma stage_fields [simp]:
  "nodes (stage a v s) = nodes s"
  "num_cycles (stage a v s) = num_cycles s"
  "vnode_callbacks (stage a v s) = vnode_callbacks s"
  "rnode_callbacks (stage a v s) = rnode_callbacks s @ [a]"
  "staged (stage a v s) = (staged s)(a := v)"
  "event_queue (stage a v s) = event_queue s"
  "posedge_clk_fns (stage a v s) = posedge_clk_fns s"
  "vcd (stage a v s) = vcd s"
  "vcd_out (stage a v s) = vcd_out s"
  "calls (stage a v s) = calls s"
  by (simp_all add: stage_def)

lemma record_call_fields [simp]:
  "nodes (record_call c s) = nodes s"
  "num_cycles (record_call c s) = num_cycles s"
  "vnode_callbacks (record_call c s) = vnode_callbacks s"
  "rnode_callbacks (record_call c s) = rnode_callbacks s"
  "staged (record_call c s) = staged s"
  "event_queue (record_call c s) = event_queue s"
  "posedge_clk_fns (record_call c s) = posedge_clk_fns s"
  "vcd (record_call c s) = vcd s"
  "vcd_out (record_call c s) = vcd_out s"
  "calls (record_call c s) = calls s @ [(c, nodes s)]"
  by (simp_all add: record_call_def)

lemma vcd_stamp_fields [simp]:
  "nodes (vcd_stamp t s) = nodes s"
  "num_cycles (vcd_stamp t s) = num_cycles s"
  "vnode_callbacks (vcd_stamp t s) = vnode_callbacks s"
  "rnode_callbacks (vcd_stamp t s) = rnode_callbacks s"
  "staged (vcd_stamp t s) = staged s"
  "event_queue (vcd_stamp t s) = event_queue s"
  "posedge_clk_fns (vcd_stamp t s) = posedge_clk_fns s"
  "vcd (vcd_stamp t s) = vcd s"
  "calls (vcd_stamp t s) = calls s"
  by (simp_all add: vcd_stamp_def)

lemma run_num_cycles [simp]: "num_cycles (run c s) = num_cycles s"
  by (induction c arbitrary: s) simp_all

lemma run_vnode_callbacks [simp]: "vnode_callbacks (run c s) = vnode_callbacks s"
  by (induction c arbitrary: s) simp_all

lemma run_posedge_clk_fns [simp]: "posedge_clk_fns (run c s) = posedge_clk_fns s"
  by (induction c arbitrary: s) simp_all

lemma run_vcd [simp]: "vcd (run c s) = vcd s"
  by (induction c arbitrary: s) simp_all

lemma run_vcd_out [simp]: "vcd_out (run c s) = vcd_out s"
  by (induction c arbitrary: s) simp_all

lemma run_calls [simp]: "calls (run c s) = calls s"
  by (induction c arbitrary: s) simp_all

lemma run_callbacks_of [simp]: "callbacks_of (run c s) = callbacks_of s"
  by (rule callbacks_of_cong) simp

section \<open>The two iterations of a cycle as folds\<close>

lemma call_posedge_foldl:
  "call_posedge M fs s = foldl (\<lambda>st f. run (model_func M f) (record_call (Edge f) st)) s fs"
  by (induction fs arbitrary: s) simp_all

lemma clock_rnode [simp]: "rnode_callbacks (clock reg s) = rnode_callbacks s"
  by (simp add: clock_def)

lemma record_call_rnode_update:
  "record_call c (s\<lparr>rnode_callbacks := x\<rparr>) = (record_call c s)\<lparr>rnode_callbacks := x\<rparr>"
  by (simp add: record_call_def)

lemma clock_rnode_update:
  "clock reg (s\<lparr>rnode_callbacks := x\<rparr>) = (clock reg s)\<lparr>rnode_callbacks := x\<rparr>"
  by (simp add: clock_def ValueNode_set_def Let_def add_event_def split: option.splits)

lemma clock_all_steps:
  "rnode_callbacks s = rs \<Longrightarrow>
   clock_all s =
     foldl (\<lambda>st reg. clock reg (record_call (Commit reg (staged st reg)) st))
       (s\<lparr>rnode_callbacks := []\<rparr>) (rev rs)"
proof (induction rs arbitrary: s rule: rev_induct)
  case Nil
  then show ?case by (simp add: clock_all.simps)
next
  case (snoc reg rs)
  let ?s1 = "clock reg (record_call (Commit reg (staged s reg)) (s\<lparr>rnode_callbacks := rs\<rparr>))"
  have r: "rnode_callbacks ?s1 = rs" by simp
  have "clock_all s = clock_all ?s1"
    using snoc.prems by (subst clock_all.simps) simp
  also have "\<dots> = foldl (\<lambda>st reg. clock reg (record_call (Commit reg (staged st reg)) st))
                    (?s1\<lparr>rnode_callbacks := []\<rparr>) (rev rs)"
    by (rule snoc.IH [OF r])
  also have "?s1\<lparr>rnode_callbacks := []\<rparr> =
             clock reg (record_call (Commit reg (staged s reg)) (s\<lparr>rnode_callbacks := []\<rparr>))"
    by (simp add: clock_rnode_update record_call_rnode_update)
  finally show ?case by simp
qed

lemma clock_all_commit_phase: "clock_all s = commit_phase s"
  by (simp add: commit_phase_def clock_all_steps)

section \<open>Settling\<close>

lemma eval_combinational_empty: "event_queue s = [] \<Longrightarrow> eval_combinational M s = Some s"
  by (subst eval_combinational.simps) simp

lemma eval_combinational_pop:
  "event_queue s = q @ [f] \<Longrightarrow>
   eval_combinational M s =
     eval_combinational M (run (model_func M f) (record_call (Comb f) (s\<lparr>event_queue := q\<rparr>)))"
  by (subst eval_combinational.simps) simp

lemmas eval_combinational_induct =
  eval_combinational.raw_induct [rotated, consumes 1, case_names step]

lemma eval_combinational_static:
  assumes "eval_combinational M s = Some s'"
  shows "num_cycles s' = num_cycles s \<and> vnode_callbacks s' = vnode_callbacks s \<and>
     posedge_clk_fns s' = posedge_clk_fns s \<and> vcd s' = vcd s \<and> vcd_out s' = vcd_out s \<and>
     event_queue s' = []"
  using assms
proof (induction rule: eval_combinational_induct)
  case (step ev M s s')
  show ?case
  proof (cases "event_queue s = []")
    case True
    with step(2) show ?thesis by simp
  next
    case False
    with step(2) have "ev M
             (run (model_func M (last (event_queue s)))
                (record_call (Comb (last (event_queue s)))
                   (s\<lparr>event_queue := butlast (event_queue s)\<rparr>))) = Some s'"
      by simp
    from step(1) [OF this] show ?thesis by simp
  qed
qed

lemma foldl_edge_static:
  "num_cycles (foldl (\<lambda>st f. run (model_func M f) (record_call (Edge f) st)) s fs) = num_cycles s"
  by (induction fs arbitrary: s) simp_all

lemma clock_num_cycles [simp]: "num_cycles (clock reg s) = num_cycles s"
  by (simp add: clock_def)

lemma foldl_commit_static:
  "num_cycles (foldl (\<lambda>st reg. clock reg (record_call (Commit reg (staged st reg)) st)) s rs)
     = num_cycles s"
  by (induction rs arbitrary: s) simp_all

lemma clock_phase_fields [simp]:
  "num_cycles (clock_phase M s) = num_cycles s"
  "posedge_clk_fns (clock_phase M s) = posedge_clk_fns s"
  "vn_value (nodes (clock_phase M s) (model_clk M)) = 1"
  by (simp_all add: clock_phase_def Let_def)

lemma edge_phase_num_cycles [simp]: "num_cycles (edge_phase M s) = num_cycles s"
  by (simp add: edge_phase_def foldl_edge_static)

lemma commit_phase_num_cycles [simp]: "num_cycles (commit_phase s) = num_cycles s"
  by (simp add: commit_phase_def foldl_commit_static)

lemma cycle_unfold:
  "cycle M s =
     Option.bind (eval_combinational M s) (\<lambda>s1.
       Option.bind (eval_combinational M (commit_phase (edge_phase M (clock_phase M s1)))) (\<lambda>s6.
         Some (s6\<lparr>num_cycles := num_cycles s6 + 1\<rparr>)))"
  by (simp add: cycle_def Let_def clock_all_commit_phase edge_phase_def clock_phase_def
        call_posedge_foldl split: option.splits)

section \<open>The event queue\<close>

lemma callbacks_of_simps [simp]:
  "callbacks_of (record_call k s) = callbacks_of s"
  "callbacks_of (s\<lparr>event_queue := q\<rparr>) = callbacks_of s"
  "callbacks_of (ValueNode_set a v s) = callbacks_of s"
  "callbacks_of (stage a v s) = callbacks_of s"
  "callbacks_of (add_event a s) = callbacks_of s"
  by (rule callbacks_of_cong, simp)+

lemma remdups_snoc: "remdups (xs @ [f]) = remdups (filter (\<lambda>g. g \<noteq> f) xs) @ [f]"
  by (induction xs) auto

lemma add_funcs_eq:
  "add_funcs fs q = remdups (rev (filter (\<lambda>f. f \<notin> set q) fs)) @ q"
proof (induction fs arbitrary: q)
  case Nil
  then show ?case by simp
next
  case (Cons f fs)
  show ?case
  proof (cases "f \<in> set q")
    case True
    then show ?thesis by (simp add: Cons.IH)
  next
    case False
    have "filter (\<lambda>g. g \<notin> set (f # q)) fs = filter (\<lambda>g. g \<noteq> f) (filter (\<lambda>g. g \<notin> set q) fs)"
      by (induction fs) auto
    then have "add_funcs (f # fs) q =
               remdups (filter (\<lambda>g. g \<noteq> f) (rev (filter (\<lambda>g. g \<notin> set q) fs))) @ f # q"
      using False by (simp add: Cons.IH rev_filter)
    also have "\<dots> = remdups (rev (filter (\<lambda>g. g \<notin> set q) fs) @ [f]) @ q"
      by (simp add: remdups_snoc)
    finally show ?thesis using False by simp
  qed
qed


lemma distinct_add_funcs: "distinct q \<Longrightarrow> distinct (add_funcs fs q)"
  by (induction fs arbitrary: q) auto





lemma distinct_ValueNode_set:
  "distinct (event_queue s) \<Longrightarrow> distinct (event_queue (ValueNode_set a v s))"
  by (simp add: ValueNode_set_queue distinct_add_funcs)

lemma distinct_run: "distinct (event_queue s) \<Longrightarrow> distinct (event_queue (run c s))"
  by (induction c arbitrary: s) (simp_all add: distinct_ValueNode_set)

lemma distinct_register_function:
  "distinct (event_queue s) \<Longrightarrow> distinct (event_queue (register_function f ns s))"
  by (induction ns arbitrary: s) simp_all


lemma run_quiet:
  "\<forall>a\<in>writes c. callbacks_of s a = [] \<Longrightarrow> event_queue (run c s) = event_queue s"
proof (induction c arbitrary: s)
  case (Write a v c)
  from Write.prems have "\<forall>b\<in>writes c. callbacks_of (ValueNode_set a v s) b = []"
    by simp
  from Write.IH [OF this] Write.prems show ?case
    by (simp add: ValueNode_set_queue)
next
  case (Next a v c)
  from Next.prems have "\<forall>b\<in>writes c. callbacks_of (stage a v s) b = []"
    by simp
  from Next.IH [OF this] show ?case by simp
qed auto

lemma called_simps [simp]:
  "called (run c s) = called s"
  "called (record_call k s) = called s @ [k]"
  "called (s\<lparr>event_queue := q\<rparr>) = called s"
  by (simp_all add: called_def)

lemma settle_quiet:
  "event_queue s = q \<Longrightarrow>
   \<forall>f\<in>set q. \<forall>a\<in>writes (model_func M f). callbacks_of s a = [] \<Longrightarrow>
   \<exists>s'. eval_combinational M s = Some s' \<and> called s' = called s @ map Comb (rev q) \<and>
        event_queue s' = []"
proof (induction q arbitrary: s rule: rev_induct)
  case Nil
  then show ?case by (simp add: eval_combinational_empty)
next
  case (snoc f q)
  let ?s0 = "record_call (Comb f) (s\<lparr>event_queue := q\<rparr>)"
  let ?s1 = "run (model_func M f) ?s0"
  have "\<forall>a\<in>writes (model_func M f). callbacks_of ?s0 a = []"
    using snoc.prems(2) by simp
  then have q1: "event_queue ?s1 = q"
    by (simp add: run_quiet)
  have "\<forall>g\<in>set q. \<forall>a\<in>writes (model_func M g). callbacks_of ?s1 a = []"
    using snoc.prems(2) by simp
  from snoc.IH [OF q1 this] obtain s' where
    "eval_combinational M ?s1 = Some s'" "called s' = called ?s1 @ map Comb (rev q)"
    "event_queue s' = []"
    by blast
  then show ?case
    using snoc.prems(1) by (simp add: eval_combinational_pop)
qed



subsection \<open>Settling returns when the sensitivity graph is acyclic\<close>

lemma ranked_cong:
  "vnode_callbacks s' = vnode_callbacks s \<Longrightarrow> ranked rank M s' = ranked rank M s"
  unfolding ranked_def by (drule callbacks_of_cong) simp

lemma add_funcs_new: "\<exists>new. add_funcs fs q = new @ q \<and> set new \<subseteq> set fs"
  by (rule exI [of _ "remdups (rev (filter (\<lambda>f. f \<notin> set q) fs))"])
    (auto simp: add_funcs_eq)

lemma ValueNode_set_new:
  "\<exists>new. event_queue (ValueNode_set a v s) = new @ event_queue s \<and>
         set new \<subseteq> set (callbacks_of s a)"
  using add_funcs_new [of "callbacks_of s a" "event_queue s"]
  by (auto simp: ValueNode_set_queue)

lemma run_new:
  "\<forall>a\<in>writes c. \<forall>h\<in>set (callbacks_of s a). rank h < r \<Longrightarrow>
   \<exists>new. event_queue (run c s) = new @ event_queue s \<and> (\<forall>h\<in>set new. rank h < (r::nat))"
proof (induction c arbitrary: s)
  case Return
  then show ?case by simp
next
  case (Read a k)
  then show ?case by auto
next
  case (Write a v c)
  obtain n1 where n1: "event_queue (ValueNode_set a v s) = n1 @ event_queue s"
    "set n1 \<subseteq> set (callbacks_of s a)"
    using ValueNode_set_new by blast
  from Write.prems have "\<forall>b\<in>writes c. \<forall>h\<in>set (callbacks_of (ValueNode_set a v s) b). rank h < r"
    by simp
  from Write.IH [OF this] obtain n2 where
    n2: "event_queue (run c (ValueNode_set a v s)) = n2 @ event_queue (ValueNode_set a v s)"
    "\<forall>h\<in>set n2. rank h < r"
    by blast
  from Write.prems n1(2) have "\<forall>h\<in>set n1. rank h < r" by auto
  with n1 n2 have "event_queue (run (Write a v c) s) = (n2 @ n1) @ event_queue s \<and>
    (\<forall>h\<in>set (n2 @ n1). rank h < r)"
    by auto
  then show ?case by blast
next
  case (Next a v c)
  from Next.prems have "\<forall>b\<in>writes c. \<forall>h\<in>set (callbacks_of (stage a v s) b). rank h < r"
    by simp
  from Next.IH [OF this] show ?case by simp
qed

lemma settle_returns:
  "ranked rank M s \<Longrightarrow> \<exists>s'. eval_combinational M s = Some s'"
proof (induction "image_mset rank (mset (event_queue s))" arbitrary: s rule: less_induct)
  case less
  show ?case
  proof (cases "event_queue s = []")
    case True
    then show ?thesis by (simp add: eval_combinational_empty)
  next
    case False
    then obtain q g where q: "event_queue s = q @ [g]"
      by (metis rev_exhaust)
    let ?s0 = "record_call (Comb g) (s\<lparr>event_queue := q\<rparr>)"
    let ?s1 = "run (model_func M g) ?s0"
    from less.prems have "\<forall>a\<in>writes (model_func M g). \<forall>h\<in>set (callbacks_of ?s0 a). rank h < rank g"
      by (simp add: ranked_def)
    from run_new [OF this] obtain new where
      new: "event_queue ?s1 = new @ q" "\<forall>h\<in>set new. rank h < rank g"
      by auto
    have "(image_mset rank (mset q) + image_mset rank (mset new),
           image_mset rank (mset q) + {#rank g#}) \<in> mult {(x, y). x < y}"
      by (rule one_step_implies_mult) (use new(2) in auto)
    then have "image_mset rank (mset (event_queue ?s1)) < image_mset rank (mset (event_queue s))"
      by (simp add: new(1) q less_multiset_def multp_def ac_simps)
    moreover have "ranked rank M ?s1"
      using less.prems by (simp add: ranked_def)
    ultimately have "\<exists>s'. eval_combinational M ?s1 = Some s'"
      by (rule less.hyps)
    then obtain s' where "eval_combinational M ?s1 = Some s'" ..
    then show ?thesis
      by (simp add: eval_combinational_pop [OF q])
  qed
qed

lemma run_vnode_callbacks_foldl_edge:
  "vnode_callbacks (foldl (\<lambda>st f. run (model_func M f) (record_call (Edge f) st)) s fs)
     = vnode_callbacks s"
  by (induction fs arbitrary: s) simp_all

lemma clock_vnode_callbacks [simp]: "vnode_callbacks (clock reg s) = vnode_callbacks s"
  by (simp add: clock_def)

lemma foldl_commit_vnode_callbacks:
  "vnode_callbacks (foldl (\<lambda>st reg. clock reg (record_call (Commit reg (staged st reg)) st)) s rs)
     = vnode_callbacks s"
  by (induction rs arbitrary: s) simp_all

lemma phases_vnode_callbacks:
  "vnode_callbacks (commit_phase (edge_phase M (clock_phase M s))) = vnode_callbacks s"
  by (simp add: commit_phase_def edge_phase_def clock_phase_def Let_def
        foldl_commit_vnode_callbacks run_vnode_callbacks_foldl_edge)

lemma cycle_returns:
  assumes "ranked rank M s"
  shows "\<exists>s'. cycle M s = Some s' \<and> vnode_callbacks s' = vnode_callbacks s"
proof -
  from settle_returns [OF assms] obtain s1 where s1: "eval_combinational M s = Some s1" ..
  let ?s5 = "commit_phase (edge_phase M (clock_phase M s1))"
  have v1: "vnode_callbacks s1 = vnode_callbacks s"
    using eval_combinational_static [OF s1] by simp
  have v5: "vnode_callbacks ?s5 = vnode_callbacks s"
    using v1 by (simp add: phases_vnode_callbacks)
  have "ranked rank M ?s5"
    using assms ranked_cong [OF v5] by simp
  from settle_returns [OF this] obtain s6 where s6: "eval_combinational M ?s5 = Some s6" ..
  have "vnode_callbacks s6 = vnode_callbacks s"
    using eval_combinational_static [OF s6] v5 by simp
  with s1 s6 show ?thesis
    by (simp add: cycle_unfold)
qed

lemma reset_returns:
  assumes "ranked rank M s"
  shows "\<exists>s'. reset M s = Some s'"
proof -
  let ?s0 = "ValueNode_set (model_reset M) 1 s"
  have "ranked rank M ?s0"
    using assms ranked_cong [of ?s0 s] by simp
  from cycle_returns [OF this] obtain s1 where
    s1: "cycle M ?s0 = Some s1" "vnode_callbacks s1 = vnode_callbacks ?s0"
    by blast
  have "ranked rank M s1"
    using assms ranked_cong [of s1 s] s1(2) by simp
  from cycle_returns [OF this] obtain s2 where "cycle M s1 = Some s2"
    by blast
  with s1(1) show ?thesis
    by (simp add: reset_def)
qed

lemmas sim_eval =
  sim_state_def sim_model_def record_call_def ValueNode_set_def add_event_def
  vcd_stamp_def clock_def stage_def called_def seen_def Let_def

text \<open>
  C3, as stated, fails. Functions 0 and 1 are registered on net 2 in this order. A write
  to net 2 leaves the queue as \<open>[1, 0]\<close>, with function 1, triggered last, at the front;
  settle then runs function 0 first and function 1 last, so that net 5 ends at 20.
\<close>

theorem settle_runs_oldest_first:
  "event_queue (add_event 2 (sim_state [2 \<mapsto> [0, 1]] [] [])) = [1, 0] \<and>
   map_option (\<lambda>s. (called s, vn_value (nodes s 5)))
     (eval_combinational two_writers (add_event 2 (sim_state [2 \<mapsto> [0, 1]] [] [])))
   = Some ([Comb 0, Comb 1], 20)"
  by (simp add: eval_combinational.simps two_writers_def sim_eval)

text \<open>
  C3, amended: the event queue is first in, first out. Scheduling a write puts each
  registered function that is not already pending at the left end of the queue, in
  registration order; settle returns at once on an empty queue, and otherwise takes the
  rightmost, oldest, entry and invokes it before it settles the rest; when the pending
  functions write only nets that nothing is sensitive to, settle returns after it has
  invoked them from right to left, the oldest first, and the queue is empty.
\<close>

theorem event_queue_fifo:
  "event_queue (add_event a s) =
     remdups (rev (filter (\<lambda>f. f \<notin> set (event_queue s)) (callbacks_of s a))) @ event_queue s \<and>
   (event_queue s = [] \<longrightarrow> eval_combinational M s = Some s) \<and>
   (event_queue s = q @ [f] \<longrightarrow>
      eval_combinational M s =
        eval_combinational M (run (model_func M f) (record_call (Comb f) (s\<lparr>event_queue := q\<rparr>)))) \<and>
   ((\<forall>g\<in>set (event_queue s). \<forall>n\<in>writes (model_func M g). callbacks_of s n = []) \<longrightarrow>
      (\<exists>s'. eval_combinational M s = Some s' \<and>
            called s' = called s @ map Comb (rev (event_queue s)) \<and> event_queue s' = []))"
  using settle_quiet [of s "event_queue s" M]
  by (simp add: add_event_eq add_funcs_eq eval_combinational_empty eval_combinational_pop)

text \<open>
  C3, amended, at the two functions above: an empty queue settles at once, and after a
  write to net 2 function 0 is invoked before function 1.
\<close>

theorem event_queue_fifo_witness:
  "event_queue (sim_state [2 \<mapsto> [0, 1]] [] []) = [] \<and>
   eval_combinational two_writers (sim_state [2 \<mapsto> [0, 1]] [] []) =
     Some (sim_state [2 \<mapsto> [0, 1]] [] []) \<and>
   event_queue (add_event 2 (sim_state [2 \<mapsto> [0, 1]] [] [])) = [1] @ [0] \<and>
   (\<exists>s'. eval_combinational two_writers (add_event 2 (sim_state [2 \<mapsto> [0, 1]] [] [])) = Some s' \<and>
         called s' = [Comb 0, Comb 1] \<and> event_queue s' = [])"
proof -
  let ?s = "sim_state [2 \<mapsto> [0, 1]] [] []"
  have q0: "event_queue ?s = []"
    by (simp add: sim_state_def)
  have q: "event_queue (add_event 2 ?s) = [1] @ [0]"
    by (simp add: sim_state_def add_event_def)
  have quiet: "\<forall>g\<in>set (event_queue (add_event 2 ?s)).
      \<forall>n\<in>writes (model_func two_writers g). callbacks_of (add_event 2 ?s) n = []"
    by (simp add: sim_state_def add_event_def two_writers_def sim_model_def callbacks_of_def)
  have c: "called (add_event 2 ?s) = []"
    by (simp add: sim_state_def add_event_def called_def)
  from event_queue_fifo [of 2 ?s two_writers "[1]" 0] q0
  have 1: "eval_combinational two_writers ?s = Some ?s"
    by simp
  from event_queue_fifo [of 2 "add_event 2 ?s" two_writers "[1]" 0] quiet
  have "\<exists>s'. eval_combinational two_writers (add_event 2 ?s) = Some s' \<and>
          called s' = called (add_event 2 ?s) @ map Comb (rev (event_queue (add_event 2 ?s))) \<and>
          event_queue s' = []"
    by blast
  then obtain s' where e: "eval_combinational two_writers (add_event 2 ?s) = Some s'"
    and cs: "called s' = called (add_event 2 ?s) @ map Comb (rev (event_queue (add_event 2 ?s)))"
    and qe: "event_queue s' = []"
    by blast
  have "called s' = [Comb 0, Comb 1]"
    unfolding cs c q by simp
  with e qe have 2: "\<exists>s'. eval_combinational two_writers (add_event 2 ?s) = Some s' \<and>
          called s' = [Comb 0, Comb 1] \<and> event_queue s' = []"
    by blast
  from q0 1 q 2 show ?thesis by blast
qed




section \<open>The cycle\<close>

text \<open>
  The calls of the edge phase are the edge-triggered functions in registration order; the
  calls of the commit phase are the staged registers, last staged first.
\<close>

lemma edge_foldl_called:
  "called (foldl (\<lambda>st f. run (model_func M f) (record_call (Edge f) st)) s fs) =
     called s @ map Edge fs"
  by (induction fs arbitrary: s) simp_all

lemma edge_phase_called: "called (edge_phase M s) = called s @ map Edge (posedge_clk_fns s)"
  by (simp add: edge_phase_def edge_foldl_called)

lemma clock_staged [simp]: "staged (clock reg s) = staged s"
  by (simp add: clock_def)

lemma commit_foldl_called:
  "called (foldl (\<lambda>st reg. clock reg (record_call (Commit reg (staged st reg)) st)) s rs) =
     called s @ map (\<lambda>reg. Commit reg (staged s reg)) rs"
proof (induction rs arbitrary: s)
  case Nil
  then show ?case by simp
next
  case (Cons reg rs)
  have "called (clock reg (record_call (Commit reg (staged s reg)) s)) =
        called s @ [Commit reg (staged s reg)]"
    by (simp add: called_def clock_def)
  then show ?case by (simp add: Cons.IH)
qed

lemma commit_phase_called:
  "called (commit_phase s) =
     called s @ map (\<lambda>reg. Commit reg (staged s reg)) (rev (rnode_callbacks s))"
proof -
  have "called (s\<lparr>rnode_callbacks := []\<rparr>) = called s"
    by (simp add: called_def)
  then show ?thesis
    by (simp add: commit_phase_def commit_foldl_called)
qed

text \<open>
  C2, as stated, fails: the first settle of a cycle runs before the clock is driven low,
  so from the second cycle on it runs with the clock at 1. Function 0 copies the clock to
  net 3 and is triggered by a write to net 2 between two cycles: the first settle of the
  second cycle invokes it with the clock at 1, and net 3 ends at 1.
\<close>

theorem settle_before_clock_low:
  "Option.bind (cycle clock_probe (sim_state [2 \<mapsto> [0]] [0] [])) (\<lambda>s1.
     Option.bind (cycle clock_probe (ValueNode_set 2 1 s1)) (\<lambda>s2.
       Some (seen (model_clk clock_probe) s2, vn_value (nodes s2 3), num_cycles s2)))
   = Some ([(Comb 0, 0), (Comb 0, 1)], 1, 2)"
  by (simp add: cycle_def eval_combinational.simps clock_all.simps clock_probe_def sim_eval)

text \<open>
  C2, amended: a call of \<^verbatim>\<open>cycle\<close> returns exactly when its two settles return, and it has
  then performed, in this order: a settle with the clock as the cycle found it; the clock
  driven to 0 and then to 1; every edge-triggered function, in registration order; the
  commit of every staged register, in reverse of staging order; a second settle; and the
  increment of the cycle counter by exactly 1. Both settles are performed whatever the
  state. The calls of the edge phase and of the commit phase are in the orders named.
\<close>

theorem cycle_phases:
  "(cycle M s = Some s' \<longleftrightarrow>
      (\<exists>s1 s6. eval_combinational M s = Some s1 \<and>
         vn_value (nodes (clock_phase M s1) (model_clk M)) = 1 \<and>
         eval_combinational M (commit_phase (edge_phase M (clock_phase M s1))) = Some s6 \<and>
         s' = s6\<lparr>num_cycles := num_cycles s + 1\<rparr>)) \<and>
   called (edge_phase M c) = called c @ map Edge (posedge_clk_fns c) \<and>
   called (commit_phase e) =
     called e @ map (\<lambda>reg. Commit reg (staged e reg)) (rev (rnode_callbacks e))"
proof -
  have "cycle M s = Some s' \<longleftrightarrow>
      (\<exists>s1 s6. eval_combinational M s = Some s1 \<and>
         vn_value (nodes (clock_phase M s1) (model_clk M)) = 1 \<and>
         eval_combinational M (commit_phase (edge_phase M (clock_phase M s1))) = Some s6 \<and>
         s' = s6\<lparr>num_cycles := num_cycles s + 1\<rparr>)"
  proof
    assume c: "cycle M s = Some s'"
    then obtain s1 where s1: "eval_combinational M s = Some s1"
      by (auto simp: cycle_unfold split: Option.bind_splits)
    with c obtain s6 where
      s6: "eval_combinational M (commit_phase (edge_phase M (clock_phase M s1))) = Some s6"
      and s': "s' = s6\<lparr>num_cycles := num_cycles s6 + 1\<rparr>"
      by (auto simp: cycle_unfold split: Option.bind_splits)
    have "num_cycles s6 = num_cycles s"
      using eval_combinational_static [OF s1] eval_combinational_static [OF s6] by simp
    with s1 s6 s' show "\<exists>s1 s6. eval_combinational M s = Some s1 \<and>
          vn_value (nodes (clock_phase M s1) (model_clk M)) = 1 \<and>
          eval_combinational M (commit_phase (edge_phase M (clock_phase M s1))) = Some s6 \<and>
          s' = s6\<lparr>num_cycles := num_cycles s + 1\<rparr>"
      by auto
  next
    assume "\<exists>s1 s6. eval_combinational M s = Some s1 \<and>
          vn_value (nodes (clock_phase M s1) (model_clk M)) = 1 \<and>
          eval_combinational M (commit_phase (edge_phase M (clock_phase M s1))) = Some s6 \<and>
          s' = s6\<lparr>num_cycles := num_cycles s + 1\<rparr>"
    then obtain s1 s6 where s1: "eval_combinational M s = Some s1"
      and s6: "eval_combinational M (commit_phase (edge_phase M (clock_phase M s1))) = Some s6"
      and s': "s' = s6\<lparr>num_cycles := num_cycles s + 1\<rparr>"
      by blast
    have "num_cycles s6 = num_cycles s"
      using eval_combinational_static [OF s1] eval_combinational_static [OF s6] by simp
    with s1 s6 s' show "cycle M s = Some s'"
      by (simp add: cycle_unfold)
  qed
  then show ?thesis
    by (simp add: edge_phase_called commit_phase_called)
qed

text \<open>
  C2, amended, at the model above: the cycle returns.
\<close>

theorem cycle_phases_witness:
  "\<exists>s' s1 s6. cycle clock_probe (sim_state [2 \<mapsto> [0]] [0] []) = Some s' \<and>
     eval_combinational clock_probe (sim_state [2 \<mapsto> [0]] [0] []) = Some s1 \<and>
     vn_value (nodes (clock_phase clock_probe s1) (model_clk clock_probe)) = 1 \<and>
     eval_combinational clock_probe
       (commit_phase (edge_phase clock_probe (clock_phase clock_probe s1))) = Some s6 \<and>
     s' = s6\<lparr>num_cycles := num_cycles (sim_state [2 \<mapsto> [0]] [0] []) + 1\<rparr>"
proof -
  have "\<exists>s'. cycle clock_probe (sim_state [2 \<mapsto> [0]] [0] []) = Some s'"
    by (simp add: cycle_def eval_combinational.simps clock_all.simps clock_probe_def sim_eval)
  then obtain s' where c: "cycle clock_probe (sim_state [2 \<mapsto> [0]] [0] []) = Some s'" ..
  with cycle_phases [of clock_probe "sim_state [2 \<mapsto> [0]] [0] []" s'] show ?thesis
    by blast
qed

section \<open>Reset\<close>

lemma reset_held_record_call: "reset_held r n s \<Longrightarrow> reset_held r n (record_call c s)"
  by (auto simp: reset_held_def)

lemma reset_held_ValueNode_set:
  "a \<noteq> r \<Longrightarrow> reset_held r n s \<Longrightarrow> reset_held r n (ValueNode_set a v s)"
  by (simp add: reset_held_def)

lemma reset_held_stage: "a \<noteq> r \<Longrightarrow> reset_held r n s \<Longrightarrow> reset_held r n (stage a v s)"
  by (simp add: reset_held_def)

lemma reset_held_updates [simp]:
  "reset_held r n (s\<lparr>event_queue := q\<rparr>) = reset_held r n s"
  "reset_held r n (s\<lparr>num_cycles := k\<rparr>) = reset_held r n s"
  "reset_held r n (vcd_stamp t s) = reset_held r n s"
  by (simp_all add: reset_held_def)

lemma reset_held_run: "r \<notin> drives c \<Longrightarrow> reset_held r n s \<Longrightarrow> reset_held r n (run c s)"
proof (induction c arbitrary: s)
  case (Read a k)
  then show ?case by auto
qed (simp_all add: reset_held_ValueNode_set reset_held_stage)

lemma reset_held_settle:
  assumes "eval_combinational M s = Some s'"
    and "\<forall>g. r \<notin> drives (model_func M g)" and "reset_held r n s"
  shows "reset_held r n s'"
  using assms
proof (induction rule: eval_combinational_induct)
  case (step ev M s s')
  show ?case
  proof (cases "event_queue s = []")
    case True
    with step(2,4) show ?thesis by simp
  next
    case False
    let ?g = "last (event_queue s)"
    let ?s1 = "run (model_func M ?g) (record_call (Comb ?g) (s\<lparr>event_queue := butlast (event_queue s)\<rparr>))"
    from False step(2) have ev: "ev M ?s1 = Some s'" by simp
    have "reset_held r n ?s1"
      using step(3,4) by (simp add: reset_held_run reset_held_record_call)
    from step(1) [OF ev step(3) this] show ?thesis .
  qed
qed

lemma reset_held_clock_phase:
  "model_clk M \<noteq> r \<Longrightarrow> reset_held r n s \<Longrightarrow> reset_held r n (clock_phase M s)"
  by (simp add: clock_phase_def Let_def reset_held_ValueNode_set)

lemma reset_held_edge_foldl:
  "\<forall>g. r \<notin> drives (model_func M g) \<Longrightarrow> reset_held r n s \<Longrightarrow>
   reset_held r n (foldl (\<lambda>st f. run (model_func M f) (record_call (Edge f) st)) s fs)"
  by (induction fs arbitrary: s) (simp_all add: reset_held_run reset_held_record_call)

lemma reset_held_commit_foldl:
  "\<forall>reg\<in>set rs. reg \<noteq> r \<Longrightarrow> reset_held r n s \<Longrightarrow>
   reset_held r n (foldl (\<lambda>st reg. clock reg (record_call (Commit reg (staged st reg)) st)) s rs)"
  by (induction rs arbitrary: s)
     (simp_all add: clock_def reset_held_ValueNode_set reset_held_record_call)

lemma reset_held_commit_phase: "reset_held r n s \<Longrightarrow> reset_held r n (commit_phase s)"
proof -
  assume h: "reset_held r n s"
  then have 1: "\<forall>reg\<in>set (rev (rnode_callbacks s)). reg \<noteq> r"
    by (auto simp: reset_held_def)
  from h have 2: "reset_held r n (s\<lparr>rnode_callbacks := []\<rparr>)"
    by (simp add: reset_held_def)
  from reset_held_commit_foldl [OF 1 2] show ?thesis
    by (simp add: commit_phase_def)
qed

lemma reset_held_cycle:
  assumes "cycle M s = Some s'" and "model_clk M \<noteq> r"
    and "\<forall>g. r \<notin> drives (model_func M g)" and "reset_held r n s"
  shows "reset_held r n s'"
proof -
  from assms(1) obtain s1 s6 where s1: "eval_combinational M s = Some s1"
    and s6: "eval_combinational M (commit_phase (edge_phase M (clock_phase M s1))) = Some s6"
    and s': "s' = s6\<lparr>num_cycles := num_cycles s6 + 1\<rparr>"
    by (auto simp: cycle_unfold split: Option.bind_splits)
  have "reset_held r n s1"
    using reset_held_settle [OF s1 assms(3,4)] .
  then have "reset_held r n (clock_phase M s1)"
    using assms(2) by (rule reset_held_clock_phase [rotated])
  then have "reset_held r n (edge_phase M (clock_phase M s1))"
    using assms(3) by (simp add: edge_phase_def reset_held_edge_foldl)
  then have "reset_held r n (commit_phase (edge_phase M (clock_phase M s1)))"
    by (rule reset_held_commit_phase)
  from reset_held_settle [OF s6 assms(3) this] s' show ?thesis by simp
qed

lemma cycle_num_cycles: "cycle M s = Some s' \<Longrightarrow> num_cycles s' = num_cycles s + 1"
proof -
  assume c: "cycle M s = Some s'"
  then obtain s1 s6 where s1: "eval_combinational M s = Some s1"
    and s6: "eval_combinational M (commit_phase (edge_phase M (clock_phase M s1))) = Some s6"
    and s': "s' = s6\<lparr>num_cycles := num_cycles s6 + 1\<rparr>"
    by (auto simp: cycle_unfold split: Option.bind_splits)
  show ?thesis
    using eval_combinational_static [OF s1] eval_combinational_static [OF s6] s' by simp
qed

text \<open>
  C5, as worded, fails: the reset net need not read 1 at the commits. A model whose
  combinational function 0 drives the reset net low undoes what \<^verbatim>\<open>reset\<close> wrote, in
  the first settle pass, and both commits see 0.
\<close>

theorem reset_driven_by_model:
  "map_option (seen (model_reset reset_driver))
     (reset reset_driver (sim_state Map.empty [0] [1]))
   = Some [(Comb 0, 1), (Edge 1, 0), (Commit 3 7, 0), (Edge 1, 0), (Commit 3 7, 0)]"
  by (simp add: reset_def cycle_def eval_combinational.simps clock_all.simps
        reset_driver_def sim_eval)

text \<open>
  C5, amended. \<^verbatim>\<open>reset\<close> returns exactly when the two cycles it runs, after driving the
  reset net to 1, return, and its result is the state they leave with the reset net driven
  to 0; it does return when the sensitivity graph is acyclic. The net then reads 0 and the
  counter has advanced by exactly 2. Provided the reset net is driven by \<^verbatim>\<open>reset\<close> alone
  (it is not the clock, no function of the model writes or stages it, and no register
  staged earlier would overwrite it), the net reads 1 after each of the two cycles and at
  every call made in between: every combinational function, every edge-triggered function
  and every commit saw it at 1.
\<close>

theorem reset_two_cycles:
  "(reset M s = Some s' \<longleftrightarrow>
      (\<exists>s1 s2. cycle M (ValueNode_set (model_reset M) 1 s) = Some s1 \<and>
               cycle M s1 = Some s2 \<and> s' = ValueNode_set (model_reset M) 0 s2)) \<and>
   (ranked rank M s \<longrightarrow> (\<exists>t. reset M s = Some t)) \<and>
   (\<forall>s1 s2. cycle M (ValueNode_set (model_reset M) 1 s) = Some s1 \<and> cycle M s1 = Some s2 \<longrightarrow>
      vn_value (nodes (ValueNode_set (model_reset M) 0 s2) (model_reset M)) = 0 \<and>
      num_cycles (ValueNode_set (model_reset M) 0 s2) = num_cycles s + 2 \<and>
      (model_clk M \<noteq> model_reset M \<and> (\<forall>g. model_reset M \<notin> drives (model_func M g)) \<and>
       model_reset M \<notin> set (rnode_callbacks s) \<longrightarrow>
         vn_value (nodes s1 (model_reset M)) = 1 \<and> vn_value (nodes s2 (model_reset M)) = 1 \<and>
         (\<forall>e\<in>set (drop (length (calls s)) (calls (ValueNode_set (model_reset M) 0 s2))).
            vn_value (snd e (model_reset M)) = 1)))"
proof -
  let ?r = "model_reset M"
  let ?s0 = "ValueNode_set ?r 1 s"
  have 1: "reset M s = Some s' \<longleftrightarrow>
      (\<exists>s1 s2. cycle M ?s0 = Some s1 \<and> cycle M s1 = Some s2 \<and> s' = ValueNode_set ?r 0 s2)"
    by (auto simp: reset_def split: option.splits)
  have 2: "ranked rank M s \<longrightarrow> (\<exists>t. reset M s = Some t)"
    using reset_returns by blast
  have 3: "vn_value (nodes (ValueNode_set ?r 0 s2) ?r) = 0 \<and>
      num_cycles (ValueNode_set ?r 0 s2) = num_cycles s + 2 \<and>
      (model_clk M \<noteq> ?r \<and> (\<forall>g. ?r \<notin> drives (model_func M g)) \<and>
       ?r \<notin> set (rnode_callbacks s) \<longrightarrow>
         vn_value (nodes s1 ?r) = 1 \<and> vn_value (nodes s2 ?r) = 1 \<and>
         (\<forall>e\<in>set (drop (length (calls s)) (calls (ValueNode_set ?r 0 s2))).
            vn_value (snd e ?r) = 1))"
    if c1: "cycle M ?s0 = Some s1" and c2: "cycle M s1 = Some s2" for s1 s2
  proof -
    have n: "num_cycles (ValueNode_set ?r 0 s2) = num_cycles s + 2"
      using cycle_num_cycles [OF c1] cycle_num_cycles [OF c2] by simp
    have held: "vn_value (nodes s1 ?r) = 1 \<and> vn_value (nodes s2 ?r) = 1 \<and>
              (\<forall>e\<in>set (drop (length (calls s)) (calls (ValueNode_set ?r 0 s2))).
                 vn_value (snd e ?r) = 1)"
      if f: "model_clk M \<noteq> ?r" "\<forall>g. ?r \<notin> drives (model_func M g)"
            "?r \<notin> set (rnode_callbacks s)"
    proof -
      have "reset_held ?r (length (calls s)) ?s0"
        using f(3) by (simp add: reset_held_def)
      from reset_held_cycle [OF c1 f(1,2) this]
      have h1: "reset_held ?r (length (calls s)) s1" .
      from reset_held_cycle [OF c2 f(1,2) this]
      have h2: "reset_held ?r (length (calls s)) s2" .
      from h1 h2 show ?thesis by (simp add: reset_held_def)
    qed
    from n held show ?thesis by simp
  qed
  from 1 2 3 show ?thesis by blast
qed

text \<open>
  C5 at a model whose edge-triggered function 2 stages the value of the reset net on net
  3, followed by two combinational stages: both commits store 1.
\<close>

theorem reset_two_cycles_witness:
  "ranked ((\<lambda>_. 0)(3 := 1)) reset_pipeline (sim_state [3 \<mapsto> [3], 4 \<mapsto> [4]] [4, 3] [2]) \<and>
   model_clk reset_pipeline \<noteq> model_reset reset_pipeline \<and>
   (\<forall>g. model_reset reset_pipeline \<notin> drives (model_func reset_pipeline g)) \<and>
   model_reset reset_pipeline \<notin>
     set (rnode_callbacks (sim_state [3 \<mapsto> [3], 4 \<mapsto> [4]] [4, 3] [2])) \<and>
   (\<exists>s'. reset reset_pipeline (sim_state [3 \<mapsto> [3], 4 \<mapsto> [4]] [4, 3] [2]) = Some s' \<and>
     vn_value (nodes s' (model_reset reset_pipeline)) = 0 \<and> num_cycles s' = 2 \<and>
     seen (model_reset reset_pipeline) s' =
       [(Comb 3, 1), (Comb 4, 1), (Edge 2, 1), (Commit 3 1, 1), (Comb 3, 1), (Comb 4, 1),
        (Edge 2, 1), (Commit 3 1, 1), (Comb 3, 1), (Comb 4, 1)] \<and>
     (\<forall>e\<in>set (drop (length (calls (sim_state [3 \<mapsto> [3], 4 \<mapsto> [4]] [4, 3] [2]))) (calls s')).
        vn_value (snd e (model_reset reset_pipeline)) = 1))"
proof -
  let ?s = "sim_state [3 \<mapsto> [3], 4 \<mapsto> [4]] [4, 3] [2]"
  have k: "ranked ((\<lambda>_. 0)(3 := 1)) reset_pipeline ?s"
    by (simp add: ranked_def sim_state_def reset_pipeline_def sim_model_def callbacks_of_def)
  have f: "model_clk reset_pipeline \<noteq> model_reset reset_pipeline"
    "\<forall>g. model_reset reset_pipeline \<notin> drives (model_func reset_pipeline g)"
    "model_reset reset_pipeline \<notin> set (rnode_callbacks ?s)"
    by (simp_all add: reset_pipeline_def sim_model_def sim_state_def)
  have "\<exists>s'. reset reset_pipeline ?s = Some s' \<and>
          seen (model_reset reset_pipeline) s' =
            [(Comb 3, 1), (Comb 4, 1), (Edge 2, 1), (Commit 3 1, 1), (Comb 3, 1), (Comb 4, 1),
             (Edge 2, 1), (Commit 3 1, 1), (Comb 3, 1), (Comb 4, 1)]"
    by (simp add: reset_def cycle_def eval_combinational.simps clock_all.simps
          reset_pipeline_def callbacks_of_def sim_eval)
  then obtain s' where r: "reset reset_pipeline ?s = Some s'"
    and sn: "seen (model_reset reset_pipeline) s' =
            [(Comb 3, 1), (Comb 4, 1), (Edge 2, 1), (Commit 3 1, 1), (Comb 3, 1), (Comb 4, 1),
             (Edge 2, 1), (Commit 3 1, 1), (Comb 3, 1), (Comb 4, 1)]"
    by blast
  note t = reset_two_cycles [of reset_pipeline ?s s' "(\<lambda>_. 0)(3 := 1)"]
  let ?r = "model_reset reset_pipeline"
  from t r obtain s1 s2 where c: "cycle reset_pipeline (ValueNode_set ?r 1 ?s) = Some s1"
    "cycle reset_pipeline s1 = Some s2" "s' = ValueNode_set ?r 0 s2"
    by blast
  from t c(1,2) f
  have "vn_value (nodes (ValueNode_set ?r 0 s2) ?r) = 0 \<and>
        num_cycles (ValueNode_set ?r 0 s2) = num_cycles ?s + 2 \<and>
        (\<forall>e\<in>set (drop (length (calls ?s)) (calls (ValueNode_set ?r 0 s2))).
            vn_value (snd e ?r) = 1)"
    by blast
  then have h: "vn_value (nodes s' ?r) = 0" "num_cycles s' = num_cycles ?s + 2"
    "\<forall>e\<in>set (drop (length (calls ?s)) (calls s')). vn_value (snd e ?r) = 1"
    using c(3) by simp_all
  have "num_cycles ?s = 0"
    by (simp add: sim_state_def)
  with h(2) have "num_cycles s' = 2"
    by simp
  with k f r sn h(1,3) show ?thesis
    by blast
qed

section \<open>Elaborating twice\<close>





end
